theory Spec2Isabelle
  imports Complex_Main
begin

section \<open>Exceptions and floating-point values\<close>

text \<open>
  The four pages compute on Python floats and NumPy arrays.  The embedding reads every
  float as a real number (no rounding, no overflow) and keeps the two things that floats add
  and that the control flow depends on: the exceptions that Python raises, and NumPy's
  \<open>nan\<close>, which NumPy returns where Python's \<open>math\<close> module raises.
\<close>

datatype value_error =
    MathDomain       \<comment> \<open>\<open>math.log\<close> or \<open>math.sqrt\<close> outside its domain\<close>
  | NegativeDims     \<comment> \<open>\<open>np.zeros\<close> with a negative dimension\<close>
  | OptionType       \<comment> \<open>the \<open>raise ValueError\<close> of \<open>black_scholes\<close>\<close>
  | SameSign         \<comment> \<open>\<open>brentq\<close>: f(a) and f(b) must have different signs\<close>

datatype error =
    ZeroDivisionError
  | ValueError value_error
  | IndexError

datatype npfloat = Val real | NaN

section \<open>The standard normal distribution function\<close>

text \<open>
  \<open>scipy.stats.norm.cdf\<close> is library code.  It is the standard normal cumulative
  distribution function, here given by its Maclaurin series
  \<open>\<Phi>(x) = 1/2 + (1/sqrt(2\<pi>)) \<Sum>n. (-1)^n x^(2n+1) / (n! 2^n (2n+1))\<close>,
  written as \<open>x\<close> times a power series in \<open>x\<^sup>2\<close>.
\<close>

definition norm_cdf_coeff :: "nat \<Rightarrow> real" where
  "norm_cdf_coeff n = (- 1) ^ n / (fact n * 2 ^ n * (2 * real n + 1))"

definition norm_cdf :: "real \<Rightarrow> real" where
  "norm_cdf x = 1 / 2 + x * (\<Sum>n. norm_cdf_coeff n * (x\<^sup>2) ^ n) / sqrt (2 * pi)"

section \<open>Page 1: the Black-Scholes pricer\<close>

text \<open>
  \<open>black_scholes\<close> of \<open>1_Black-Scholes Pricer.py\<close>.  The guards before \<open>d1\<close> are the
  exceptions of the first line, in the order Python evaluates it: \<open>S / K\<close>, \<open>math.log\<close>,
  \<open>math.sqrt(T)\<close>, then the division by \<open>sigma * math.sqrt(T)\<close>.
\<close>

definition black_scholes ::
  "real \<Rightarrow> real \<Rightarrow> real \<Rightarrow> real \<Rightarrow> real \<Rightarrow> string \<Rightarrow> error + real" where
  "black_scholes S K T r sigma option_type =
     (if K = 0 then Inl ZeroDivisionError
      else if S / K \<le> 0 then Inl (ValueError MathDomain)
      else if T < 0 then Inl (ValueError MathDomain)
      else if sigma * sqrt T = 0 then Inl ZeroDivisionError
      else
        let d1 = (ln (S / K) + (r + 0.5 * sigma\<^sup>2) * T) / (sigma * sqrt T);
            d2 = d1 - sigma * sqrt T
        in if option_type = ''call'' then
             Inr (S * norm_cdf d1 - K * exp (- r * T) * norm_cdf d2)
           else if option_type = ''put'' then
             Inr (K * exp (- r * T) * norm_cdf (- d2) - S * norm_cdf (- d1))
           else Inl (ValueError OptionType))"

section \<open>Page 4: the implied volatility estimator\<close>

text \<open>
  \<open>black_scholes_price\<close> of \<open>4_Implied Volatility Estimator.py\<close>: the same first two
  lines, and a two-way branch on the option type.
\<close>

definition black_scholes_price ::
  "real \<Rightarrow> real \<Rightarrow> real \<Rightarrow> real \<Rightarrow> real \<Rightarrow> string \<Rightarrow> error + real" where
  "black_scholes_price S K T r sigma option_type =
     (if K = 0 then Inl ZeroDivisionError
      else if S / K \<le> 0 then Inl (ValueError MathDomain)
      else if T < 0 then Inl (ValueError MathDomain)
      else if sigma * sqrt T = 0 then Inl ZeroDivisionError
      else
        let d1 = (ln (S / K) + (r + 0.5 * sigma\<^sup>2) * T) / (sigma * sqrt T);
            d2 = d1 - sigma * sqrt T
        in if option_type = ''call'' then
             Inr (S * norm_cdf d1 - K * exp (- r * T) * norm_cdf d2)
           else
             Inr (K * exp (- r * T) * norm_cdf (- d2) - S * norm_cdf (- d1)))"

text \<open>
  \<open>scipy.optimize.brentq\<close> is library code.  Its documented contract, in exact
  arithmetic: it evaluates \<open>f\<close> at both ends of the bracket (an exception of \<open>f\<close>
  propagates), raises \<open>ValueError\<close> when the two values have the same strict sign, and
  otherwise returns a zero of \<open>f\<close> in the bracket.  The tolerance of the returned zero and
  the iteration limit belong to floating-point arithmetic and are not modelled.
\<close>

definition brentq :: "(real \<Rightarrow> error + real) \<Rightarrow> real \<Rightarrow> real \<Rightarrow> error + real" where
  "brentq f a b =
     (case f a of
        Inl e \<Rightarrow> Inl e
      | Inr fa \<Rightarrow>
          (case f b of
             Inl e \<Rightarrow> Inl e
           | Inr fb \<Rightarrow>
               if fa = 0 then Inr a
               else if fb = 0 then Inr b
               else if fa * fb > 0 then Inl (ValueError SameSign)
               else Inr (SOME x. a \<le> x \<and> x \<le> b \<and> f x = Inr 0)))"

text \<open>The closure \<open>objective\<close> inside \<open>implied_volatility\<close>.\<close>

definition objective ::
  "real \<Rightarrow> real \<Rightarrow> real \<Rightarrow> real \<Rightarrow> real \<Rightarrow> string \<Rightarrow> real \<Rightarrow> error + real" where
  "objective S K T r market_price option_type sigma =
     (case black_scholes_price S K T r sigma option_type of
        Inl e \<Rightarrow> Inl e
      | Inr price \<Rightarrow> Inr (price - market_price))"

text \<open>
  \<open>implied_volatility\<close>: \<open>try: return brentq(objective, 1e-6, 5.0)\<close> with
  \<open>except ValueError: return None\<close>.  Every other exception reaches the caller.
\<close>

definition implied_volatility ::
  "real \<Rightarrow> real \<Rightarrow> real \<Rightarrow> real \<Rightarrow> real \<Rightarrow> string \<Rightarrow> error + real option" where
  "implied_volatility S K T r market_price option_type =
     (case brentq (objective S K T r market_price option_type) (1 / 10 ^ 6) 5 of
        Inr x \<Rightarrow> Inr (Some x)
      | Inl (ValueError v) \<Rightarrow> Inr None
      | Inl e \<Rightarrow> Inl e)"

section \<open>Page 3: the binomial tree pricer\<close>

text \<open>
  The grid \<open>option\<close> is a NumPy array of \<open>N + 1\<close> rows and columns, here a list of rows.
  Every index the loops write or read lies inside the grid.
\<close>

definition np_zeros2 :: "nat \<Rightarrow> nat \<Rightarrow> real list list" where
  "np_zeros2 m n = replicate m (replicate n 0)"

definition set2 :: "real list list \<Rightarrow> nat \<Rightarrow> nat \<Rightarrow> real \<Rightarrow> real list list" where
  "set2 a i j v = a[i := (a ! i)[j := v]]"

text \<open>The first loop: \<open>for j in range(N + 1)\<close>, filling row \<open>N\<close>.\<close>

definition terminal_loop ::
  "real \<Rightarrow> real \<Rightarrow> real \<Rightarrow> real \<Rightarrow> nat \<Rightarrow> string \<Rightarrow> real list list \<Rightarrow> real list list" where
  "terminal_loop S K u d n option_type opt =
     fold (\<lambda>j opt.
             let ST = S * (u ^ (n - j)) * (d ^ j)
             in if option_type = ''call'' then set2 opt n j (max (ST - K) 0)
                else set2 opt n j (max (K - ST) 0))
          [0..<n + 1] opt"

text \<open>The inner loop \<open>for j in range(i + 1)\<close> of the backward induction.\<close>

definition backward_row :: "real \<Rightarrow> real \<Rightarrow> nat \<Rightarrow> real list list \<Rightarrow> real list list" where
  "backward_row disc p i opt =
     fold (\<lambda>j opt. set2 opt i j (disc * (p * opt ! (i + 1) ! j + (1 - p) * opt ! (i + 1) ! (j + 1))))
          [0..<i + 1] opt"

text \<open>The outer loop \<open>for i in range(N - 1, -1, -1)\<close>.\<close>

definition backward_loop :: "real \<Rightarrow> real \<Rightarrow> nat \<Rightarrow> real list list \<Rightarrow> real list list" where
  "backward_loop disc p n opt = fold (backward_row disc p) (rev [0..<n]) opt"

text \<open>
  \<open>binomial_tree\<close>.  \<open>T / N\<close> raises for \<open>N = 0\<close>, \<open>math.sqrt(dt)\<close> for \<open>dt < 0\<close>, the
  division by \<open>u - d\<close> when the two are equal, and \<open>np.zeros\<close> for a negative
  dimension.  For \<open>N = -1\<close> the grid is empty, both loops have an empty range, and
  \<open>option[0, 0]\<close> raises.
\<close>

definition binomial_tree ::
  "real \<Rightarrow> real \<Rightarrow> real \<Rightarrow> real \<Rightarrow> real \<Rightarrow> int \<Rightarrow> string \<Rightarrow> error + real" where
  "binomial_tree S K T r sigma N option_type =
     (if N = 0 then Inl ZeroDivisionError
      else
        let dt = T / real_of_int N in
        if dt < 0 then Inl (ValueError MathDomain)
        else
          let u = exp (sigma * sqrt dt);
              d = 1 / u in
          if u - d = 0 then Inl ZeroDivisionError
          else
            let p = (exp (r * dt) - d) / (u - d) in
            if N + 1 < 0 then Inl (ValueError NegativeDims)
            else if N + 1 = 0 then Inl IndexError
            else
              let n = nat N;
                  option = np_zeros2 (n + 1) (n + 1);
                  option = terminal_loop S K u d n option_type option;
                  option = backward_loop (exp (- r * dt)) p n option
              in Inr (option ! 0 ! 0))"

section \<open>Page 2: the least-squares Monte Carlo pricer\<close>

text \<open>
  The matrix \<open>paths\<close> is only ever read and written by column (\<open>paths[:, t]\<close>), so it is
  held as the list of its columns.  The draws of \<open>np.random.standard_normal\<close> are an
  argument: \<open>z t i\<close> is component \<open>i\<close> of the vector drawn in iteration \<open>t\<close>.
\<close>

definition simulate_paths ::
  "(nat \<Rightarrow> nat \<Rightarrow> real) \<Rightarrow> real \<Rightarrow> real \<Rightarrow> real \<Rightarrow> real \<Rightarrow> nat \<Rightarrow> nat \<Rightarrow> real list list" where
  "simulate_paths z S0 r sigma dt simulations steps =
     fold (\<lambda>t paths.
             paths[t := map (\<lambda>i. paths ! (t - 1) ! i
                                  * exp ((r - 0.5 * sigma\<^sup>2) * dt + sigma * sqrt dt * z t i))
                            [0..<simulations]])
          [1..<steps + 1]
          ((replicate (steps + 1) (replicate simulations 0))[0 := replicate simulations S0])"

text \<open>
  One iteration of the backward loop for an option type other than \<open>'call'\<close>, lines 31 to
  42; \<open>col\<close> is \<open>paths[:, t]\<close>.  \<open>np.linalg.lstsq\<close> is library code and an argument: it
  takes the design matrix \<open>A\<close> and \<open>Y\<close> and returns the three coefficients.
\<close>

definition lsm_put_step ::
  "(real list list \<Rightarrow> real list \<Rightarrow> real \<times> real \<times> real) \<Rightarrow> real \<Rightarrow> real \<Rightarrow> nat
     \<Rightarrow> real list \<Rightarrow> real list \<Rightarrow> real list" where
  "lsm_put_step lstsq K discount simulations col payoff =
     (let itm = filter (\<lambda>i. col ! i < K) [0..<simulations] in
      if length itm = 0 then payoff
      else
        let X = map (\<lambda>i. col ! i) itm;
            Y = map (\<lambda>i. payoff ! i * discount) itm;
            A = map (\<lambda>x. [1, x, x\<^sup>2]) X;
            coeffs = lstsq A Y;
            continuation_value =
              map (\<lambda>x. fst coeffs + fst (snd coeffs) * x + snd (snd coeffs) * x\<^sup>2) X;
            exercise_value = map (\<lambda>i. max (K - col ! i) 0) itm;
            exercise = filter (\<lambda>k. exercise_value ! k > continuation_value ! k) [0..<length itm];
            payoff = fold (\<lambda>k payoff. payoff[itm ! k := exercise_value ! k]) exercise payoff
        in map (\<lambda>i. if i \<in> set (map (\<lambda>k. itm ! k) exercise) then payoff ! i
                     else payoff ! i * discount)
               [0..<simulations])"

fun np_mean :: "real list \<Rightarrow> npfloat" where
  "np_mean [] = NaN"
| "np_mean xs = Val (sum_list xs / real (length xs))"

fun np_times :: "npfloat \<Rightarrow> real \<Rightarrow> npfloat" where
  "np_times NaN c = NaN"
| "np_times (Val x) c = Val (x * c)"

text \<open>
  \<open>lsm_american_option_price\<close>.  \<open>T / steps\<close> raises for \<open>steps = 0\<close>, \<open>np.zeros\<close> for a
  negative dimension, and \<open>paths[:, 0] = S0\<close> on the matrix without columns of
  \<open>steps = -1\<close>.  For \<open>dt < 0\<close>, \<open>np.sqrt(dt)\<close> is \<open>nan\<close>: every later column of
  \<open>paths\<close> is \<open>nan\<close>, so is the payoff, no comparison \<open>paths[:, t] < K\<close> holds, and the
  result is \<open>nan\<close>.  The mean of an empty array is \<open>nan\<close> as well.
\<close>

definition lsm_american_option_price ::
  "(real list list \<Rightarrow> real list \<Rightarrow> real \<times> real \<times> real) \<Rightarrow> (nat \<Rightarrow> nat \<Rightarrow> real)
     \<Rightarrow> real \<Rightarrow> real \<Rightarrow> real \<Rightarrow> real \<Rightarrow> real \<Rightarrow> string \<Rightarrow> int \<Rightarrow> int \<Rightarrow> error + npfloat" where
  "lsm_american_option_price lstsq z S0 K T r sigma option_type simulations steps =
     (if steps = 0 then Inl ZeroDivisionError
      else
        let dt = T / real_of_int steps;
            discount = exp (- r * dt) in
        if simulations < 0 then Inl (ValueError NegativeDims)
        else if steps + 1 < 0 then Inl (ValueError NegativeDims)
        else if steps + 1 = 0 then Inl IndexError
        else if dt < 0 then Inr NaN
        else
          let paths = simulate_paths z S0 r sigma dt (nat simulations) (nat steps);
              payoff = (if option_type = ''call''
                        then map (\<lambda>s. max (s - K) 0) (paths ! nat steps)
                        else map (\<lambda>s. max (K - s) 0) (paths ! nat steps));
              payoff = fold (\<lambda>t payoff.
                               if option_type = ''call'' then map (\<lambda>x. x * discount) payoff
                               else lsm_put_step lstsq K discount (nat simulations) (paths ! t) payoff)
                            (rev [1..<nat steps]) payoff
          in Inr (np_times (np_mean payoff) (exp (- r * dt))))"

section \<open>The formulas of the specification\<close>

text \<open>The two intermediate quantities of the analytic pricer, as the specification writes them.\<close>

definition bs_d1 :: "real \<Rightarrow> real \<Rightarrow> real \<Rightarrow> real \<Rightarrow> real \<Rightarrow> real" where
  "bs_d1 S K T r sigma = (ln (S / K) + (r + 0.5 * sigma\<^sup>2) * T) / (sigma * sqrt T)"

definition bs_d2 :: "real \<Rightarrow> real \<Rightarrow> real \<Rightarrow> real \<Rightarrow> real \<Rightarrow> real" where
  "bs_d2 S K T r sigma = bs_d1 S K T r sigma - sigma * sqrt T"

text \<open>The payoff at a terminal price \<open>ST\<close>; every type other than \<open>'call'\<close> pays as a put.\<close>

definition payoff_of :: "string \<Rightarrow> real \<Rightarrow> real \<Rightarrow> real" where
  "payoff_of option_type K ST = (if option_type = ''call'' then max (ST - K) 0 else max (K - ST) 0)"

text \<open>The Cox-Ross-Rubinstein parameters of the lattice.\<close>

definition crr_u :: "real \<Rightarrow> real \<Rightarrow> int \<Rightarrow> real" where
  "crr_u sigma T N = exp (sigma * sqrt (T / real_of_int N))"

definition crr_d :: "real \<Rightarrow> real \<Rightarrow> int \<Rightarrow> real" where
  "crr_d sigma T N = 1 / crr_u sigma T N"

definition crr_p :: "real \<Rightarrow> real \<Rightarrow> real \<Rightarrow> int \<Rightarrow> real" where
  "crr_p r sigma T N =
     (exp (r * (T / real_of_int N)) - crr_d sigma T N) / (crr_u sigma T N - crr_d sigma T N)"

text \<open>
  The value of a lattice node by the recursion of the specification: \<open>k\<close> is the number of
  steps left to maturity and \<open>j\<close> the number of down moves, so the node is at step
  \<open>n - k\<close>.  A terminal node carries the payoff at \<open>S u\<^bsup>n-j\<^esup> d\<^bsup>j\<^esup>\<close>; an
  interior node the discounted expectation of its two children, and nothing else.
\<close>

fun node_value ::
  "(real \<Rightarrow> real) \<Rightarrow> real \<Rightarrow> real \<Rightarrow> real \<Rightarrow> real \<Rightarrow> real \<Rightarrow> nat \<Rightarrow> nat \<Rightarrow> nat \<Rightarrow> real" where
  "node_value pay S u d p disc n 0 j = pay (S * u ^ (n - j) * d ^ j)"
| "node_value pay S u d p disc n (Suc k) j =
     disc * (p * node_value pay S u d p disc n k j
             + (1 - p) * node_value pay S u d p disc n k (j + 1))"

text \<open>
  The loop invariant of the backward induction: the grid keeps its shape, and the row of
  step \<open>n - k\<close> holds the node values up to its diagonal.
\<close>

definition grid_ok ::
  "(real \<Rightarrow> real) \<Rightarrow> real \<Rightarrow> real \<Rightarrow> real \<Rightarrow> real \<Rightarrow> real \<Rightarrow> nat \<Rightarrow> nat \<Rightarrow> real list list \<Rightarrow> bool" where
  "grid_ok pay S u d p disc n k a \<longleftrightarrow>
     length a = n + 1 \<and> (\<forall>i \<le> n. length (a ! i) = n + 1)
     \<and> (\<forall>j \<le> n - k. a ! (n - k) ! j = node_value pay S u d p disc n k j)"

text \<open>
  The European Monte Carlo estimate of a call over given terminal prices: the discounted
  mean of the terminal payoffs.
\<close>

definition european_call_mc :: "real \<Rightarrow> real \<Rightarrow> real \<Rightarrow> real list \<Rightarrow> real" where
  "european_call_mc K T r terminal =
     exp (- (r * T)) * (sum_list (map (\<lambda>s. max (s - K) 0) terminal) / real (length terminal))"

text \<open>
  The analytic price as a function of the volatility, for the option types as page 4
  branches on them.
\<close>

definition bs_value :: "real \<Rightarrow> real \<Rightarrow> real \<Rightarrow> real \<Rightarrow> string \<Rightarrow> real \<Rightarrow> real" where
  "bs_value S K T r option_type sigma =
     (if option_type = ''call''
      then S * norm_cdf (bs_d1 S K T r sigma) - K * exp (- (r * T)) * norm_cdf (bs_d2 S K T r sigma)
      else K * exp (- (r * T)) * norm_cdf (- bs_d2 S K T r sigma)
           - S * norm_cdf (- bs_d1 S K T r sigma))"

text \<open>
  The coefficients that the regression of one backward step returns, and the continuation
  value fitted from them at a price \<open>x\<close>.
\<close>

definition regression_fit ::
  "(real list list \<Rightarrow> real list \<Rightarrow> real \<times> real \<times> real) \<Rightarrow> real \<Rightarrow> real \<Rightarrow> nat
     \<Rightarrow> real list \<Rightarrow> real list \<Rightarrow> real \<times> real \<times> real" where
  "regression_fit lstsq K discount simulations col payoff =
     (let itm = filter (\<lambda>i. col ! i < K) [0..<simulations]
      in lstsq (map (\<lambda>x. [1, x, x\<^sup>2]) (map (\<lambda>i. col ! i) itm))
               (map (\<lambda>i. payoff ! i * discount) itm))"

definition fitted :: "real \<times> real \<times> real \<Rightarrow> real \<Rightarrow> real" where
  "fitted coeffs x = fst coeffs + fst (snd coeffs) * x + snd (snd coeffs) * x\<^sup>2"

section \<open>The distribution function\<close>

text \<open>
  The series of \<open>norm_cdf\<close> converges everywhere, by comparison with the exponential
  series.  Differentiated term by term it gives the standard normal density: \<open>norm_cdf\<close>
  is \<open>1/2\<close> at \<open>0\<close> and its derivative at \<open>x\<close> is \<open>e\<^bsup>-x\<^sup>2/2\<^esup> / sqrt(2\<pi>)\<close>.
\<close>

lemma norm_cdf_coeff_bound:
  "norm (norm_cdf_coeff n * y ^ n) \<le> inverse (fact n) * (\<bar>y\<bar> / 2) ^ n"
proof -
  have pos: "(0::real) < fact n * 2 ^ n" by simp
  have le: "fact n * 2 ^ n * 1 \<le> fact n * 2 ^ n * (2 * real n + 1)"
    by (simp only: mult_le_cancel_left_pos [OF pos])
  have "norm (norm_cdf_coeff n * y ^ n) = \<bar>y\<bar> ^ n / (fact n * 2 ^ n * (2 * real n + 1))"
    by (simp add: norm_cdf_coeff_def abs_mult power_abs)
  also have "\<dots> \<le> \<bar>y\<bar> ^ n / (fact n * 2 ^ n * 1)"
    by (rule frac_le [OF _ order_refl _ le])
       (simp_all only: zero_le_power abs_ge_zero mult_1_right pos)
  also have "\<dots> = inverse (fact n) * (\<bar>y\<bar> / 2) ^ n"
    by (simp add: field_simps)
  finally show ?thesis .
qed

lemma norm_cdf_summable: "summable (\<lambda>n. norm_cdf_coeff n * y ^ n)"
  by (rule summable_comparison_test' [OF summable_exp [of "\<bar>y\<bar> / 2"], of 0])
     (rule norm_cdf_coeff_bound)

lemma norm_cdf_series_deriv:
  "DERIV (\<lambda>y. \<Sum>n. norm_cdf_coeff n * y ^ n) y :> (\<Sum>n. diffs norm_cdf_coeff n * y ^ n)"
  by (rule termdiffs_strong_converges_everywhere) (rule norm_cdf_summable)

lemma power_pred_mult: "y * y ^ (n - Suc 0) * real n = y ^ n * real n" for y :: real
  by (cases n) simp_all

lemma norm_cdf_coeff_term1: "norm_cdf_coeff n * y ^ n + 2 * y * (real n * norm_cdf_coeff n * y ^ (n - Suc 0))
          = norm_cdf_coeff n * (2 * real n + 1) * y ^ n"
proof -
  have "2 * y * (real n * norm_cdf_coeff n * y ^ (n - Suc 0))
          = 2 * norm_cdf_coeff n * (y * y ^ (n - Suc 0) * real n)"
    by (simp only: mult.assoc mult.left_commute mult.commute)
  also have "\<dots> = 2 * norm_cdf_coeff n * (y ^ n * real n)"
    by (simp only: power_pred_mult)
  finally show ?thesis by (simp only: ring_distribs) (simp only: mult_ac mult_1_right add.commute)
qed

lemma norm_cdf_coeff_term2: "norm_cdf_coeff n * (2 * real n + 1) = (- 1) ^ n / (fact n * 2 ^ n)"
proof -
  have "2 * real n + 1 \<noteq> 0" by (simp add: add_nonneg_eq_0_iff)
  then show ?thesis by (simp add: norm_cdf_coeff_def)
qed

lemma norm_cdf_coeff_term3: "(- 1) ^ n / (fact n * 2 ^ n) * y ^ n = (- y / 2) ^ n /\<^sub>R fact n" for y :: real
proof -
  have "(- y / 2) ^ n = (- 1) ^ n * y ^ n / 2 ^ n"
    by (simp only: power_divide power_minus [of y])
  then show ?thesis by (simp add: field_simps)
qed

lemma norm_cdf_coeff_term:
  "norm_cdf_coeff n * y ^ n + 2 * y * (real n * norm_cdf_coeff n * y ^ (n - Suc 0))
     = (- y / 2) ^ n /\<^sub>R fact n"
  by (simp only: norm_cdf_coeff_term1 norm_cdf_coeff_term2 norm_cdf_coeff_term3)

lemma norm_cdf_series_ode:
  "(\<Sum>n. norm_cdf_coeff n * y ^ n) + 2 * y * (\<Sum>n. diffs norm_cdf_coeff n * y ^ n)
     = exp (- y / 2)"
proof -
  have "summable (\<lambda>n. diffs norm_cdf_coeff n * y ^ n)"
    by (rule termdiff_converges_all) (rule norm_cdf_summable)
  then have "(\<lambda>n. real n * norm_cdf_coeff n * y ^ (n - Suc 0))
                sums (\<Sum>n. diffs norm_cdf_coeff n * y ^ n)"
    by (rule diffs_equiv)
  then have "(\<lambda>n. 2 * y * (real n * norm_cdf_coeff n * y ^ (n - Suc 0)))
                sums (2 * y * (\<Sum>n. diffs norm_cdf_coeff n * y ^ n))"
    by (rule sums_mult)
  moreover have "(\<lambda>n. norm_cdf_coeff n * y ^ n) sums (\<Sum>n. norm_cdf_coeff n * y ^ n)"
    by (rule summable_sums [OF norm_cdf_summable])
  ultimately have "(\<lambda>n. norm_cdf_coeff n * y ^ n
                        + 2 * y * (real n * norm_cdf_coeff n * y ^ (n - Suc 0)))
      sums ((\<Sum>n. norm_cdf_coeff n * y ^ n) + 2 * y * (\<Sum>n. diffs norm_cdf_coeff n * y ^ n))"
    by (intro sums_add)
  then have "(\<lambda>n. (- y / 2) ^ n /\<^sub>R fact n)
      sums ((\<Sum>n. norm_cdf_coeff n * y ^ n) + 2 * y * (\<Sum>n. diffs norm_cdf_coeff n * y ^ n))"
    by (simp only: norm_cdf_coeff_term)
  then show ?thesis
    by (rule sums_unique2 [OF _ exp_converges])
qed

lemma deriv_antisymmetric_series:
  assumes "DERIV g (x\<^sup>2) :> g'"
  shows "DERIV (\<lambda>x::real. 1 / 2 + x * g (x\<^sup>2) / sqrt (2 * pi)) x
               :> (g (x\<^sup>2) + 2 * x\<^sup>2 * g') / sqrt (2 * pi)"
proof -
  have "DERIV (\<lambda>x. x\<^sup>2) x :> 2 * x"
    using DERIV_power [OF DERIV_ident, of 2 x] by simp
  with assms have c: "DERIV (\<lambda>x. g (x\<^sup>2)) x :> g' * (2 * x)"
    by (rule DERIV_chain2 [where f = g and g = "\<lambda>x. x\<^sup>2"])
  have "DERIV (\<lambda>x. x * g (x\<^sup>2)) x :> 1 * g (x\<^sup>2) + g' * (2 * x) * x"
    by (rule DERIV_mult [OF DERIV_ident c])
  then have "DERIV (\<lambda>x. x * g (x\<^sup>2) / sqrt (2 * pi)) x
      :> (1 * g (x\<^sup>2) + g' * (2 * x) * x) / sqrt (2 * pi)"
    by (rule DERIV_cdivide)
  then have "DERIV (\<lambda>x. 1 / 2 + x * g (x\<^sup>2) / sqrt (2 * pi)) x
      :> 0 + (1 * g (x\<^sup>2) + g' * (2 * x) * x) / sqrt (2 * pi)"
    by (rule DERIV_add [OF DERIV_const])
  moreover have "0 + (1 * g (x\<^sup>2) + g' * (2 * x) * x) / sqrt (2 * pi)
       = (g (x\<^sup>2) + 2 * x\<^sup>2 * g') / sqrt (2 * pi)"
    by (simp add: power2_eq_square mult_ac)
  ultimately show ?thesis by (simp only:)
qed

lemma norm_cdf_zero: "norm_cdf 0 = 1 / 2"
  by (simp add: norm_cdf_def)

lemma norm_cdf_deriv: "DERIV norm_cdf x :> exp (- x\<^sup>2 / 2) / sqrt (2 * pi)"
proof -
  have "DERIV (\<lambda>x. 1 / 2 + x * (\<Sum>n. norm_cdf_coeff n * (x\<^sup>2) ^ n) / sqrt (2 * pi)) x
          :> ((\<Sum>n. norm_cdf_coeff n * (x\<^sup>2) ^ n)
               + 2 * x\<^sup>2 * (\<Sum>n. diffs norm_cdf_coeff n * (x\<^sup>2) ^ n)) / sqrt (2 * pi)"
    by (rule deriv_antisymmetric_series [OF norm_cdf_series_deriv])
  then show ?thesis
    by (simp only: norm_cdf_series_ode norm_cdf_def [abs_def])
qed

lemma isCont_norm_cdf_series: "isCont (\<lambda>y. \<Sum>n. norm_cdf_coeff n * y ^ n) y"
  by (rule isCont_powser_converges_everywhere) (rule norm_cdf_summable)

lemma continuous_on_norm_cdf_series: "continuous_on UNIV (\<lambda>y. \<Sum>n. norm_cdf_coeff n * y ^ n)"
  by (simp add: continuous_on_eq_continuous_at [OF open_UNIV] isCont_norm_cdf_series)

lemma continuous_on_norm_cdf:
  assumes "continuous_on A g"
  shows "continuous_on A (\<lambda>x. norm_cdf (g x))"
proof -
  have sq: "continuous_on A (\<lambda>x. (g x)\<^sup>2)"
    by (intro continuous_on_power assms)
  have "continuous_on A (\<lambda>x. \<Sum>n. norm_cdf_coeff n * ((g x)\<^sup>2) ^ n)"
    by (rule continuous_on_compose2 [OF continuous_on_norm_cdf_series sq]) simp
  then have "continuous_on A
      (\<lambda>x. 1 / 2 + g x * (\<Sum>n. norm_cdf_coeff n * ((g x)\<^sup>2) ^ n) / sqrt (2 * pi))"
    by (intro continuous_on_add continuous_on_const continuous_on_divide continuous_on_mult assms)
       simp_all
  then show ?thesis by (simp only: norm_cdf_def)
qed

section \<open>The analytic pricer\<close>

lemma norm_cdf_symmetric: "norm_cdf (- x) = 1 - norm_cdf x"
  by (simp add: norm_cdf_def)

lemma bs_guards:
  fixes S K T sigma :: real
  assumes "0 < S" "0 < K" "0 < T" "0 < sigma"
  shows "K \<noteq> 0" "\<not> S / K \<le> 0" "\<not> T < 0" "sigma * sqrt T \<noteq> 0"
  using assms by (simp_all add: not_le)

lemma black_scholes_call:
  fixes S K T r sigma :: real
  assumes "0 < S" "0 < K" "0 < T" "0 < sigma"
  shows "black_scholes S K T r sigma ''call''
           = Inr (S * norm_cdf (bs_d1 S K T r sigma)
                  - K * exp (- (r * T)) * norm_cdf (bs_d2 S K T r sigma))"
  using bs_guards [OF assms]
  by (simp add: black_scholes_def bs_d1_def bs_d2_def Let_def)

lemma black_scholes_put:
  fixes S K T r sigma :: real
  assumes "0 < S" "0 < K" "0 < T" "0 < sigma"
  shows "black_scholes S K T r sigma ''put''
           = Inr (K * exp (- (r * T)) * norm_cdf (- bs_d2 S K T r sigma)
                  - S * norm_cdf (- bs_d1 S K T r sigma))"
  using bs_guards [OF assms]
  by (simp add: black_scholes_def bs_d1_def bs_d2_def Let_def)

lemma black_scholes_price_call:
  fixes S K T r sigma :: real
  assumes "0 < S" "0 < K" "0 < T" "0 < sigma"
  shows "black_scholes_price S K T r sigma ''call''
           = Inr (S * norm_cdf (bs_d1 S K T r sigma)
                  - K * exp (- (r * T)) * norm_cdf (bs_d2 S K T r sigma))"
  using bs_guards [OF assms]
  by (simp add: black_scholes_price_def bs_d1_def bs_d2_def Let_def)

lemma black_scholes_price_other:
  fixes S K T r sigma :: real
  assumes "0 < S" "0 < K" "0 < T" "0 < sigma" "option_type \<noteq> ''call''"
  shows "black_scholes_price S K T r sigma option_type
           = Inr (K * exp (- (r * T)) * norm_cdf (- bs_d2 S K T r sigma)
                  - S * norm_cdf (- bs_d1 S K T r sigma))"
  using bs_guards [OF assms(1-4)] assms(5)
  by (simp add: black_scholes_price_def bs_d1_def bs_d2_def Let_def)

text \<open>
  Claim C1.  For \<open>S, K, T, sigma > 0\<close> and \<open>r \<ge> 0\<close>, the analytic pricer returns
  \<open>S \<Phi>(d1) - K e\<^bsup>-rT\<^esup> \<Phi>(d2)\<close> for a call and
  \<open>K e\<^bsup>-rT\<^esup> \<Phi>(-d2) - S \<Phi>(-d1)\<close> for a put, with \<open>d1\<close> and \<open>d2\<close> as the
  specification defines them.  Both copies of the function, on page 1 and on page 4, do.
\<close>

theorem black_scholes_formula:
  fixes S K T r sigma :: real
  assumes "0 < S" "0 < K" "0 < T" "0 < sigma" "0 \<le> r"
  shows "black_scholes S K T r sigma ''call''
           = Inr (S * norm_cdf (bs_d1 S K T r sigma)
                  - K * exp (- (r * T)) * norm_cdf (bs_d2 S K T r sigma))
       \<and> black_scholes S K T r sigma ''put''
           = Inr (K * exp (- (r * T)) * norm_cdf (- bs_d2 S K T r sigma)
                  - S * norm_cdf (- bs_d1 S K T r sigma))
       \<and> black_scholes_price S K T r sigma ''call''
           = Inr (S * norm_cdf (bs_d1 S K T r sigma)
                  - K * exp (- (r * T)) * norm_cdf (bs_d2 S K T r sigma))
       \<and> black_scholes_price S K T r sigma ''put''
           = Inr (K * exp (- (r * T)) * norm_cdf (- bs_d2 S K T r sigma)
                  - S * norm_cdf (- bs_d1 S K T r sigma))"
  using assms
  by (simp add: black_scholes_call black_scholes_put black_scholes_price_call
        black_scholes_price_other)

theorem black_scholes_formula_witness:
  "black_scholes 100 100 1 (5 / 100) (2 / 10) ''call''
     = Inr (100 * norm_cdf (bs_d1 100 100 1 (5 / 100) (2 / 10))
            - 100 * exp (- (5 / 100 * 1)) * norm_cdf (bs_d2 100 100 1 (5 / 100) (2 / 10)))
   \<and> black_scholes_price 100 100 1 (5 / 100) (2 / 10) ''put''
     = Inr (100 * exp (- (5 / 100 * 1)) * norm_cdf (- bs_d2 100 100 1 (5 / 100) (2 / 10))
            - 100 * norm_cdf (- bs_d1 100 100 1 (5 / 100) (2 / 10)))
   \<and> bs_d1 100 100 1 (5 / 100) (2 / 10) = 7 / 20
   \<and> bs_d2 100 100 1 (5 / 100) (2 / 10) = 3 / 20"
  using black_scholes_formula [of 100 100 1 "2 / 10" "5 / 100"]
  by (simp add: bs_d1_def bs_d2_def power2_eq_square)

text \<open>
  Claim C9.  Put-call parity of the analytic pricer: for \<open>S, K, T, sigma > 0\<close> and
  \<open>r \<ge> 0\<close> both prices exist and the call price minus the put price is
  \<open>S - K e\<^bsup>-rT\<^esup>\<close>, exactly, over the reals.
\<close>

theorem put_call_parity:
  fixes S K T r sigma :: real
  assumes "0 < S" "0 < K" "0 < T" "0 < sigma" "0 \<le> r"
  shows "\<exists>c p. black_scholes S K T r sigma ''call'' = Inr c
             \<and> black_scholes S K T r sigma ''put'' = Inr p
             \<and> c - p = S - K * exp (- (r * T))"
proof (intro exI conjI)
  show "black_scholes S K T r sigma ''call''
           = Inr (S * norm_cdf (bs_d1 S K T r sigma)
                  - K * exp (- (r * T)) * norm_cdf (bs_d2 S K T r sigma))"
    using assms by (simp add: black_scholes_call)
  show "black_scholes S K T r sigma ''put''
           = Inr (K * exp (- (r * T)) * norm_cdf (- bs_d2 S K T r sigma)
                  - S * norm_cdf (- bs_d1 S K T r sigma))"
    using assms by (simp add: black_scholes_put)
  show "(S * norm_cdf (bs_d1 S K T r sigma)
          - K * exp (- (r * T)) * norm_cdf (bs_d2 S K T r sigma))
        - (K * exp (- (r * T)) * norm_cdf (- bs_d2 S K T r sigma)
          - S * norm_cdf (- bs_d1 S K T r sigma))
        = S - K * exp (- (r * T))"
    by (simp add: norm_cdf_symmetric algebra_simps)
qed

theorem put_call_parity_witness:
  "\<exists>c p. black_scholes 100 100 1 (5 / 100) (2 / 10) ''call'' = Inr c
       \<and> black_scholes 100 100 1 (5 / 100) (2 / 10) ''put'' = Inr p
       \<and> c - p = 100 - 100 * exp (- (5 / 100))"
  using put_call_parity [of 100 100 1 "2 / 10" "5 / 100"] by simp

section \<open>The binomial tree pricer\<close>

text \<open>
  A loop that writes the entries \<open>0 .. m - 1\<close> of row \<open>i\<close>, each from row \<open>i + 1\<close>,
  replaces that prefix of the row and leaves the rest of the grid alone.
\<close>

lemma drop_update_head:
  "m < length xs \<Longrightarrow> (drop m xs)[0 := v] = v # drop (Suc m) xs"
  by (metis Cons_nth_drop_Suc list_update_code(2))

lemma fold_set2_row:
  assumes "i < length a" "m \<le> length (a ! i)"
  shows "fold (\<lambda>j opt. set2 opt i j (G (opt ! (i + 1)) j)) [0..<m] a
           = a[i := map (G (a ! (i + 1))) [0..<m] @ drop m (a ! i)]"
  using assms(2)
proof (induction m)
  case 0
  then show ?case by simp
next
  case (Suc m)
  let ?row = "map (G (a ! (i + 1))) [0..<m] @ drop m (a ! i)"
  have m: "m < length (a ! i)" using Suc.prems by simp
  have IH: "fold (\<lambda>j opt. set2 opt i j (G (opt ! (i + 1)) j)) [0..<m] a = a[i := ?row]"
    using Suc by simp
  have row: "(map (G (a ! Suc i)) [0..<m] @ drop m (a ! i))[m := v]
               = map (G (a ! Suc i)) [0..<m] @ v # drop (Suc m) (a ! i)" for v
    using m by (simp add: list_update_append drop_update_head)
  have "fold (\<lambda>j opt. set2 opt i j (G (opt ! (i + 1)) j)) [0..<Suc m] a
          = set2 (a[i := ?row]) i m (G ((a[i := ?row]) ! (i + 1)) m)"
    by (simp only: upt_Suc_append [OF le0] fold_append fold_simps o_apply IH)
  also have "\<dots> = a[i := map (G (a ! (i + 1))) [0..<Suc m] @ drop (Suc m) (a ! i)]"
    using assms(1) by (simp add: set2_def row)
  finally show ?case .
qed

lemma terminal_loop_eq:
  "terminal_loop S K u d n option_type opt =
     fold (\<lambda>j opt. set2 opt n j
            ((\<lambda>row j. if option_type = ''call'' then max (S * u ^ (n - j) * d ^ j - K) 0
                      else max (K - S * u ^ (n - j) * d ^ j) 0) (opt ! (n + 1)) j))
          [0..<n + 1] opt"
  unfolding terminal_loop_def Let_def
  by (rule arg_cong [where f = "\<lambda>f. fold f [0..<n + 1] opt"]) auto


lemma terminal_row:
  assumes "n < length a" "length (a ! n) = n + 1"
  shows "terminal_loop S K u d n option_type a
           = a[n := map (\<lambda>j. if option_type = ''call'' then max (S * u ^ (n - j) * d ^ j - K) 0
                                else max (K - S * u ^ (n - j) * d ^ j) 0) [0..<n + 1]]"
  using fold_set2_row [of n a "n + 1"
     "\<lambda>row j. if option_type = ''call'' then max (S * u ^ (n - j) * d ^ j - K) 0
                      else max (K - S * u ^ (n - j) * d ^ j) 0"] assms
  by (simp add: terminal_loop_eq)

lemma backward_row_eq:
  assumes "i < length a" "i + 1 \<le> length (a ! i)"
  shows "backward_row disc p i a
           = a[i := map (\<lambda>j. disc * (p * a ! (i + 1) ! j + (1 - p) * a ! (i + 1) ! (j + 1)))
                        [0..<i + 1] @ drop (i + 1) (a ! i)]"
  unfolding backward_row_def
  using fold_set2_row [of i a "i + 1" "\<lambda>row j. disc * (p * row ! j + (1 - p) * row ! (j + 1))"] assms
  by simp

lemma backward_loop_invariant:
  assumes "grid_ok pay S u d p disc n 0 a" "k \<le> n"
  shows "grid_ok pay S u d p disc n k (fold (backward_row disc p) (rev [n - k..<n]) a)"
  using assms(2)
proof (induction k)
  case 0
  then show ?case using assms(1) by simp
next
  case (Suc k)
  let ?a = "fold (backward_row disc p) (rev [n - k..<n]) a"
  let ?i = "n - Suc k"
  have ok: "grid_ok pay S u d p disc n k ?a" using Suc by simp
  have i: "?i < n" "?i + 1 = n - k" using Suc.prems by simp_all
  have upt: "[?i..<n] = ?i # [n - k..<n]"
    using i by (metis Suc_eq_plus1 upt_conv_Cons)
  have len: "length ?a = n + 1" "\<And>i. i \<le> n \<Longrightarrow> length (?a ! i) = n + 1"
    using ok by (simp_all add: grid_ok_def)
  have step: "fold (backward_row disc p) (rev [?i..<n]) a = backward_row disc p ?i ?a"
    by (simp add: upt)
  have row: "backward_row disc p ?i ?a
           = ?a[?i := map (\<lambda>j. disc * (p * ?a ! (?i + 1) ! j + (1 - p) * ?a ! (?i + 1) ! (j + 1)))
                        [0..<?i + 1] @ drop (?i + 1) (?a ! ?i)]"
    using i len by (intro backward_row_eq) simp_all
  show ?case
    unfolding step row grid_ok_def
  proof (intro conjI allI impI)
    show "length (?a[?i := map (\<lambda>j. disc * (p * ?a ! (?i + 1) ! j + (1 - p) * ?a ! (?i + 1) ! (j + 1)))
                        [0..<?i + 1] @ drop (?i + 1) (?a ! ?i)]) = n + 1"
      using len by simp
  next
    fix r assume "r \<le> n"
    then show "length (?a[?i := map (\<lambda>j. disc * (p * ?a ! (?i + 1) ! j + (1 - p) * ?a ! (?i + 1) ! (j + 1)))
                        [0..<?i + 1] @ drop (?i + 1) (?a ! ?i)] ! r) = n + 1"
      using len i by (cases "r = ?i") simp_all
  next
    fix j assume j: "j \<le> n - Suc k"
    have v: "?a ! (n - k) ! j = node_value pay S u d p disc n k j"
       "?a ! (n - k) ! (j + 1) = node_value pay S u d p disc n k (j + 1)"
      using ok j i unfolding grid_ok_def by auto
    show "?a[?i := map (\<lambda>j. disc * (p * ?a ! (?i + 1) ! j + (1 - p) * ?a ! (?i + 1) ! (j + 1)))
                        [0..<?i + 1] @ drop (?i + 1) (?a ! ?i)] ! ?i ! j
            = node_value pay S u d p disc n (Suc k) j"
      using j len i v by (simp add: nth_append)
  qed
qed


lemma crr_u_neq_d:
  assumes "1 \<le> N" "0 < T" "sigma \<noteq> 0"
  shows "crr_u sigma T N - crr_d sigma T N \<noteq> 0"
proof -
  let ?x = "sigma * sqrt (T / real_of_int N)"
  have "?x \<noteq> 0" using assms by simp
  then have "exp ?x \<noteq> exp (- ?x)" by (simp del: mult_eq_0_iff)
  then show ?thesis by (simp add: crr_u_def crr_d_def exp_minus divide_inverse)
qed

lemma terminal_grid_ok:
  "grid_ok (payoff_of option_type K) S u d p disc n 0
     (terminal_loop S K u d n option_type (np_zeros2 (n + 1) (n + 1)))"
proof -
  have "terminal_loop S K u d n option_type (np_zeros2 (n + 1) (n + 1))
          = (np_zeros2 (n + 1) (n + 1))[n := map (\<lambda>j. payoff_of option_type K (S * u ^ (n - j) * d ^ j)) [0..<n + 1]]"
    unfolding payoff_of_def by (rule terminal_row) (simp_all add: np_zeros2_def del: replicate.simps)
  then show ?thesis
    by (auto simp: grid_ok_def np_zeros2_def nth_list_update simp del: upt_Suc replicate.simps)
qed

lemma binomial_tree_value:
  assumes "1 \<le> N" "0 < T" "sigma \<noteq> 0"
  shows "binomial_tree S K T r sigma N option_type
           = Inr (node_value (payoff_of option_type K) S (crr_u sigma T N) (crr_d sigma T N)
                    (crr_p r sigma T N) (exp (- (r * (T / real_of_int N)))) (nat N) (nat N) 0)"
proof -
  let ?n = "nat N"
  let ?u = "crr_u sigma T N" and ?d = "crr_d sigma T N" and ?p = "crr_p r sigma T N"
  let ?disc = "exp (- (r * (T / real_of_int N)))"
  let ?a = "terminal_loop S K ?u ?d ?n option_type (np_zeros2 (?n + 1) (?n + 1))"
  have "grid_ok (payoff_of option_type K) S ?u ?d ?p ?disc ?n ?n
          (fold (backward_row ?disc ?p) (rev [?n - ?n..<?n]) ?a)"
    by (rule backward_loop_invariant [OF terminal_grid_ok]) simp
  then have root: "backward_loop ?disc ?p ?n ?a ! 0 ! 0
          = node_value (payoff_of option_type K) S ?u ?d ?p ?disc ?n ?n 0"
    by (simp add: grid_ok_def backward_loop_def)
  have N: "N \<noteq> 0" "\<not> T / real_of_int N < 0" "\<not> N + 1 < 0" "N + 1 \<noteq> 0" "nat (N + 1) = ?n + 1"
    using assms by (simp_all add: not_less)
  have ud: "exp (sigma * sqrt (T / real_of_int N)) - 1 / exp (sigma * sqrt (T / real_of_int N)) \<noteq> 0"
    using crr_u_neq_d [OF assms] by (simp add: crr_u_def crr_d_def)
  show ?thesis
    unfolding binomial_tree_def Let_def
    using N ud root by (simp add: crr_u_def crr_d_def crr_p_def)
qed

lemma binomial_tree_rejects_steps:
  assumes "N < 1"
  shows "isl (binomial_tree S K T r sigma N option_type)"
  using assms by (auto simp: binomial_tree_def Let_def)

lemma crr_p_example: "1 < crr_p 2 1 1 1"
proof -
  have "exp (1::real) < exp 2" by simp
  moreover have "(0::real) < exp 1 - 1 / exp 1"
    by (simp add: divide_simps flip: exp_add) 
  ultimately show ?thesis
    by (simp add: crr_p_def crr_u_def crr_d_def)
qed


text \<open>
  Claim C4.  For \<open>N \<ge> 1\<close>, \<open>S, K, T, sigma > 0\<close> and \<open>r \<ge> 0\<close> the lattice pricer
  returns the value of the root node (all \<open>N\<close> steps left, no down move), where the
  \<open>N + 1\<close> terminal nodes carry the call or put payoff at \<open>S u\<^bsup>N-j\<^esup> d\<^bsup>j\<^esup>\<close>
  with \<open>u = e\<^bsup>sigma sqrt(T/N)\<^esup>\<close> and \<open>d = 1/u\<close>, and every interior node is
  \<open>e\<^bsup>-r dt\<^esup> (p up + (1 - p) down)\<close>, with no comparison against early exercise.
\<close>

theorem binomial_tree_backward_induction:
  assumes "1 \<le> N" "0 < S" "0 < K" "0 < T" "0 < sigma" "0 \<le> r"
  shows "binomial_tree S K T r sigma N ''call''
           = Inr (node_value (\<lambda>ST. max (ST - K) 0) S (crr_u sigma T N) (crr_d sigma T N)
                    (crr_p r sigma T N) (exp (- (r * (T / real_of_int N)))) (nat N) (nat N) 0)
       \<and> binomial_tree S K T r sigma N ''put''
           = Inr (node_value (\<lambda>ST. max (K - ST) 0) S (crr_u sigma T N) (crr_d sigma T N)
                    (crr_p r sigma T N) (exp (- (r * (T / real_of_int N)))) (nat N) (nat N) 0)"
proof -
  have call: "payoff_of ''call'' K = (\<lambda>ST. max (ST - K) 0)"
    and put: "payoff_of ''put'' K = (\<lambda>ST. max (K - ST) 0)"
    by (simp_all add: payoff_of_def fun_eq_iff)
  from assms have "sigma \<noteq> 0" by simp
  with assms show ?thesis
    by (simp add: binomial_tree_value call put)
qed

theorem binomial_tree_backward_induction_witness:
  "binomial_tree 100 100 1 (5 / 100) (2 / 10) 2 ''call''
           = Inr (node_value (\<lambda>ST. max (ST - 100) 0) 100 (crr_u (2 / 10) 1 2) (crr_d (2 / 10) 1 2)
                    (crr_p (5 / 100) (2 / 10) 1 2) (exp (- (5 / 100 * (1 / 2)))) 2 2 0)"
  using binomial_tree_backward_induction [of 2 100 100 1 "2 / 10" "5 / 100"] by simp


text \<open>
  Claim C8, as the code has it.  The lattice pricer does not look at the risk-neutral
  probability: for \<open>N \<ge> 1\<close>, \<open>T > 0\<close> and \<open>sigma > 0\<close> on which \<open>p\<close> falls outside
  \<open>[0, 1]\<close> it returns the root value computed with that \<open>p\<close>, and no error.
\<close>

theorem binomial_tree_unchecked_probability:
  assumes "1 \<le> N" "0 < T" "0 < sigma" "crr_p r sigma T N < 0 \<or> 1 < crr_p r sigma T N"
  shows "binomial_tree S K T r sigma N option_type
           = Inr (node_value (payoff_of option_type K) S (crr_u sigma T N) (crr_d sigma T N)
                    (crr_p r sigma T N) (exp (- (r * (T / real_of_int N)))) (nat N) (nat N) 0)"
  using assms by (simp add: binomial_tree_value)

theorem binomial_tree_unchecked_probability_witness:
  "1 < crr_p 2 1 1 1 \<and>
   binomial_tree 100 100 1 2 1 1 ''put''
     = Inr (node_value (payoff_of ''put'' 100) 100 (crr_u 1 1 1) (crr_d 1 1 1)
              (crr_p 2 1 1 1) (exp (- 2)) 1 1 0)"
  using binomial_tree_unchecked_probability [of 1 1 1 2 100 100 "''put''"] crr_p_example
  by simp


text \<open>
  Claim C8 as stated fails: with \<open>r = 2\<close>, \<open>sigma = 1\<close>, \<open>T = 1\<close> and one step,
  \<open>p > 1\<close> and the pricer returns a price.
\<close>

theorem binomial_tree_out_of_range_counterexample:
  "1 < crr_p 2 1 1 1 \<and>
   binomial_tree 100 100 1 2 1 1 ''call'' = Inr (exp (- 2) * (crr_p 2 1 1 1 * (100 * exp 1 - 100)))"
proof -
  have "binomial_tree 100 100 1 2 1 1 ''call''
          = Inr (node_value (payoff_of ''call'' 100) 100 (crr_u 1 1 1) (crr_d 1 1 1)
              (crr_p 2 1 1 1) (exp (- 2)) 1 1 0)"
    using binomial_tree_value [of 1 1 1 100 100 2 "''call''"] by simp
  also have "node_value (payoff_of ''call'' 100) 100 (crr_u 1 1 1) (crr_d 1 1 1)
              (crr_p 2 1 1 1) (exp (- 2)) 1 1 0 = exp (- 2) * (crr_p 2 1 1 1 * (100 * exp 1 - 100))"
  proof -
    have "(100::real) / exp 1 \<le> 100" "(100::real) \<le> 100 * exp 1"
      by (simp_all add: pos_divide_le_eq)
    then show ?thesis
      by (simp add: payoff_of_def crr_u_def crr_d_def max_def)
  qed
  finally show ?thesis using crr_p_example by simp
qed


section \<open>The least-squares Monte Carlo pricer\<close>

lemma list_update_shape:
  assumes "length paths = n" "\<forall>t < n. length (paths ! t) = m" "length col = m"
  shows "length (paths[t := col]) = n \<and> (\<forall>s < n. length (paths[t := col] ! s) = m)"
proof (intro conjI allI impI)
  show "length (paths[t := col]) = n" using assms(1) by simp
next
  fix s assume s: "s < n"
  show "length (paths[t := col] ! s) = m"
  proof (cases "t = s")
    case True
    then show ?thesis using s assms(1,3) by simp
  next
    case False
    then show ?thesis using s assms(2) by simp
  qed
qed

lemma simulate_paths_shape:
  "length (simulate_paths z S0 r sigma dt simulations steps) = steps + 1
   \<and> (\<forall>t < steps + 1. length (simulate_paths z S0 r sigma dt simulations steps ! t) = simulations)"
  unfolding simulate_paths_def
proof (rule fold_invariant [where Q = "\<lambda>t. True"])
  show "length ((replicate (steps + 1) (replicate simulations 0))[0 := replicate simulations S0]) = steps + 1
    \<and> (\<forall>t < steps + 1. length ((replicate (steps + 1) (replicate simulations (0::real)))[0 := replicate simulations S0] ! t) = simulations)"
    by (rule list_update_shape) (simp_all del: replicate.simps)
next
  fix t and paths :: "real list list"
  assume "length paths = steps + 1 \<and> (\<forall>t < steps + 1. length (paths ! t) = simulations)"
  then show "length (paths[t := map (\<lambda>i. paths ! (t - 1) ! i
                                  * exp ((r - 0.5 * sigma\<^sup>2) * dt + sigma * sqrt dt * z t i))
                            [0..<simulations]]) = steps + 1
      \<and> (\<forall>s < steps + 1. length (paths[t := map (\<lambda>i. paths ! (t - 1) ! i
                                  * exp ((r - 0.5 * sigma\<^sup>2) * dt + sigma * sqrt dt * z t i))
                            [0..<simulations]] ! s) = simulations)"
    by (intro list_update_shape) simp_all
qed simp

lemma fold_discount:
  "fold (\<lambda>t payoff. map (\<lambda>x. x * c) payoff) ts (payoff :: real list) = map (\<lambda>x. x * c ^ length ts) payoff"
  by (induction ts arbitrary: payoff) (simp_all add: o_def mult.assoc)

lemma sum_list_scale: "sum_list (map (\<lambda>x. x * c) xs) = sum_list xs * (c :: real)"
  by (induction xs) (simp_all add: algebra_simps)

lemma np_mean_nonempty: "xs \<noteq> [] \<Longrightarrow> np_mean xs = Val (sum_list xs / real (length xs))"
  by (cases xs) simp_all

lemma exp_steps:
  assumes "1 \<le> steps"
  shows "exp (- (r * (T / real_of_int steps))) ^ nat steps = exp (- (r * T))"
proof -
  have "exp (- (r * (T / real_of_int steps))) ^ nat steps
          = exp (real (nat steps) * (- (r * (T / real_of_int steps))))"
    by (simp only: exp_of_nat_mult)
  also have "real (nat steps) * (- (r * (T / real_of_int steps))) = - (r * T)"
    using assms by simp
  finally show ?thesis .
qed

lemma lsm_put_step_no_itm:
  assumes "\<forall>i < simulations. \<not> col ! i < K"
  shows "lsm_put_step lstsq K discount simulations col payoff = payoff"
proof -
  have "filter (\<lambda>i. col ! i < K) [0..<simulations] = []"
    using assms by (simp add: filter_empty_conv)
  then show ?thesis by (simp add: lsm_put_step_def)
qed

lemma paths_example:
  "simulate_paths (\<lambda>t i. if t = 1 then 1 else - 2) 100 (8 / 100) (4 / 10) 1 1 2
     = [[100], [100 * exp (2 / 5)], [100 * exp (- (2 / 5))]]"
proof -
  have "[1..<3] = [1, 2::nat]" by (simp add: upt_rec)
  then show ?thesis
    by (simp add: simulate_paths_def numeral_2_eq_2 power2_eq_square mult_exp_exp)
qed

lemma lsm_rejects_counts:
  assumes "steps < 1 \<or> simulations < 0"
  shows "isl (lsm_american_option_price lstsq z S0 K T r sigma option_type simulations steps)"
  using assms by (auto simp: lsm_american_option_price_def Let_def)

lemma lsm_put_step_empty: "lsm_put_step lstsq K discount 0 col [] = []"
  by (simp add: lsm_put_step_def)

lemma fold_keeps_empty:
  assumes "\<And>t. f t [] = []"
  shows "fold f ts [] = []"
  by (induction ts) (simp_all add: assms)

lemma lsm_zero_simulations:
  assumes "1 \<le> steps"
  shows "lsm_american_option_price lstsq z S0 K T r sigma option_type 0 steps = Inr NaN"
proof -
  let ?dt = "T / real_of_int steps"
  have "length (simulate_paths z S0 r sigma ?dt 0 (nat steps) ! nat steps) = 0"
    using simulate_paths_shape [of z S0 r sigma ?dt 0 "nat steps"] by simp
  then have col: "simulate_paths z S0 r sigma ?dt 0 (nat steps) ! nat steps = []" by simp
  have guards: "steps \<noteq> 0" "\<not> steps + 1 < 0" "steps + 1 \<noteq> 0"
    using assms by simp_all
  show ?thesis
    unfolding lsm_american_option_price_def Let_def using guards
    by (simp add: col fold_keeps_empty lsm_put_step_empty)
qed






text \<open>
  Claim C3.  For \<open>'call'\<close> the pricer never reaches the regression: each of the
  \<open>steps - 1\<close> backward iterations multiplies the cashflows by the one-step discount, and
  after the final discount the result is \<open>e\<^bsup>-rT\<^esup>\<close> times the mean of the terminal
  call payoffs over the simulated paths, the European Monte Carlo estimate on those paths.
\<close>

theorem lsm_call_is_european:
  assumes "1 \<le> simulations" "1 \<le> steps" "0 \<le> T"
  shows "lsm_american_option_price lstsq z S0 K T r sigma ''call'' simulations steps
           = Inr (Val (european_call_mc K T r
                   (simulate_paths z S0 r sigma (T / real_of_int steps) (nat simulations) (nat steps)
                      ! nat steps)))"
proof -
  let ?dt = "T / real_of_int steps"
  let ?col = "simulate_paths z S0 r sigma ?dt (nat simulations) (nat steps) ! nat steps"
  let ?pay = "map (\<lambda>s. max (s - K) 0) ?col"
  let ?d = "exp (- (r * ?dt))"
  have len: "length ?col = nat simulations"
    using simulate_paths_shape [of z S0 r sigma ?dt "nat simulations" "nat steps"] by simp
  then have ne: "?col \<noteq> []" using assms(1) by auto
  have guards: "steps \<noteq> 0" "\<not> simulations < 0" "\<not> steps + 1 < 0" "steps + 1 \<noteq> 0" "\<not> ?dt < 0"
    using assms by (simp_all add: not_less)
  have pow: "?d ^ (nat steps - 1) * ?d = exp (- (r * T))"
  proof -
    have "0 < nat steps" using assms(2) by simp
    then have "?d ^ (nat steps - 1) * ?d = ?d ^ nat steps"
      by (rule power_minus_mult)
    then show ?thesis
      by (simp only: exp_steps [OF assms(2)])
  qed
  have "lsm_american_option_price lstsq z S0 K T r sigma ''call'' simulations steps
          = Inr (np_times (np_mean (map (\<lambda>x. x * ?d ^ (nat steps - 1)) ?pay)) ?d)"
    unfolding lsm_american_option_price_def Let_def using guards
    by (simp add: fold_discount)
  also have "np_mean (map (\<lambda>x. x * ?d ^ (nat steps - 1)) ?pay)
          = Val (sum_list ?pay * ?d ^ (nat steps - 1) / real (length ?col))"
  proof -
    have "map (\<lambda>x. x * ?d ^ (nat steps - 1)) ?pay \<noteq> []" using ne by simp
    then have "np_mean (map (\<lambda>x. x * ?d ^ (nat steps - 1)) ?pay)
          = Val (sum_list (map (\<lambda>x. x * ?d ^ (nat steps - 1)) ?pay)
                 / real (length (map (\<lambda>x. x * ?d ^ (nat steps - 1)) ?pay)))"
      by (rule np_mean_nonempty)
    then show ?thesis
      by (simp only: sum_list_scale length_map)
  qed
  also have "np_times \<dots> ?d = Val (european_call_mc K T r ?col)"
    using pow by (simp add: european_call_mc_def algebra_simps)
  finally show ?thesis .
qed


theorem lsm_call_is_european_witness:
  "lsm_american_option_price (\<lambda>A Y. (0, 0, 0)) (\<lambda>t i. 0) 100 100 1 (5 / 100) (2 / 10) ''call'' 3 2
     = Inr (Val (european_call_mc 100 1 (5 / 100)
              (simulate_paths (\<lambda>t i. 0) 100 (5 / 100) (2 / 10) (1 / 2) 3 2 ! 2)))"
  using lsm_call_is_european [of 3 2 1 "\<lambda>A Y. (0, 0, 0)" "\<lambda>t i. 0" 100 100 "5 / 100" "2 / 10"]
  by simp

text \<open>
  The second half of claim C2 holds.  When some path is in the money, a path's cashflow
  becomes its exercise value exactly when the path is in the money and that value exceeds
  the fitted continuation value, and is multiplied by the one-step discount otherwise.
\<close>

lemma fold_update_nth:
  assumes "\<forall>k \<in> set ks. v k = h (g k)" "i < length p"
  shows "fold (\<lambda>k p. p[g k := v k]) ks p ! i = (if i \<in> g ` set ks then h i else p ! i)"
  using assms
proof (induction ks arbitrary: p)
  case Nil
  then show ?case by simp
next
  case (Cons k ks)
  have "fold (\<lambda>k p. p[g k := v k]) (k # ks) p ! i
          = (if i \<in> g ` set ks then h i else p[g k := v k] ! i)"
    using Cons by simp
  also have "p[g k := v k] ! i = (if g k = i then h i else p ! i)"
    using Cons.prems by (simp add: nth_list_update)
  finally show ?case by auto
qed

lemma lsm_put_step_itm:
  assumes len: "length payoff = simulations" and itm: "\<exists>i < simulations. col ! i < K"
    and i: "i < simulations"
  shows "lsm_put_step lstsq K discount simulations col payoff ! i
           = (if col ! i < K
                 \<and> max (K - col ! i) 0
                     > fitted (regression_fit lstsq K discount simulations col payoff) (col ! i)
              then max (K - col ! i) 0
              else payoff ! i * discount)"
proof -
  let ?itm = "filter (\<lambda>i. col ! i < K) [0..<simulations]"
  let ?c = "regression_fit lstsq K discount simulations col payoff"
  let ?cv = "map (\<lambda>x. fitted ?c x) (map (\<lambda>i. col ! i) ?itm)"
  let ?ev = "map (\<lambda>i. max (K - col ! i) 0) ?itm"
  let ?ex = "filter (\<lambda>k. ?ev ! k > ?cv ! k) [0..<length ?itm]"
  let ?p1 = "fold (\<lambda>k payoff. payoff[?itm ! k := ?ev ! k]) ?ex payoff"
  let ?E = "{i. i < simulations \<and> col ! i < K \<and> max (K - col ! i) 0 > fitted ?c (col ! i)}"
  have ne: "length ?itm \<noteq> 0"
    using itm by (auto simp: filter_empty_conv)
  have step: "lsm_put_step lstsq K discount simulations col payoff
           = map (\<lambda>i. if i \<in> set (map (\<lambda>k. ?itm ! k) ?ex) then ?p1 ! i else ?p1 ! i * discount)
               [0..<simulations]"
    unfolding lsm_put_step_def regression_fit_def fitted_def Let_def
    using ne by (simp only: if_False)
  have set_itm: "set ?itm = {i. i < simulations \<and> col ! i < K}" by auto
  have ex_set: "(\<lambda>k. ?itm ! k) ` set ?ex = ?E"
  proof (intro set_eqI iffI)
    fix j assume "j \<in> (\<lambda>k. ?itm ! k) ` set ?ex"
    then obtain k where k: "k < length ?itm" "?ev ! k > ?cv ! k" "j = ?itm ! k" by auto
    then have "j \<in> set ?itm" by (metis nth_mem)
    moreover have "?ev ! k = max (K - col ! j) 0" "?cv ! k = fitted ?c (col ! j)"
      using k(1,3) by (simp_all only: nth_map length_map)
    ultimately show "j \<in> ?E" using k(2) by (simp only: set_itm mem_Collect_eq)
  next
    fix j assume j: "j \<in> ?E"
    then have "j \<in> set ?itm" by (simp add: set_itm)
    then obtain k where k: "k < length ?itm" "?itm ! k = j" by (metis in_set_conv_nth)
    have "?ev ! k = max (K - col ! j) 0" "?cv ! k = fitted ?c (col ! j)"
      using k by (simp_all only: nth_map length_map)
    then have "?ev ! k > ?cv ! k" using j by (simp only: mem_Collect_eq)
    then show "j \<in> (\<lambda>k. ?itm ! k) ` set ?ex" using k by force
  qed
  have p1: "?p1 ! i = (if i \<in> ?E then max (K - col ! i) 0 else payoff ! i)"
  proof -
    have "?p1 ! i = (if i \<in> (\<lambda>k. ?itm ! k) ` set ?ex then max (K - col ! i) 0 else payoff ! i)"
      by (rule fold_update_nth) (use i len in auto)
    then show ?thesis by (simp only: ex_set)
  qed
  have eq: "lsm_put_step lstsq K discount simulations col payoff ! i
          = (if i \<in> ?E then ?p1 ! i else ?p1 ! i * discount)"
    using i by (simp only: step nth_map length_upt diff_zero nth_upt add_0 set_map ex_set)
  show ?thesis
  proof (cases "i \<in> ?E")
    case True
    have "lsm_put_step lstsq K discount simulations col payoff ! i = max (K - col ! i) 0"
      by (simp only: eq p1 True if_True)
    then show ?thesis using True by (simp only: mem_Collect_eq simp_thms if_True)
  next
    case False
    have "lsm_put_step lstsq K discount simulations col payoff ! i = payoff ! i * discount"
      by (simp only: eq p1 False if_False)
    moreover have "\<not> (col ! i < K
        \<and> max (K - col ! i) 0
             > fitted (regression_fit lstsq K discount simulations col payoff) (col ! i))"
      using False i by (simp only: mem_Collect_eq simp_thms)
    ultimately show ?thesis by (simp only: if_False)
  qed
qed

text \<open>
  Claim C2, at an input where the code departs from it.  One path, two steps, \<open>dt = 1\<close>,
  \<open>r = 0.08\<close>, \<open>sigma = 0.4\<close>, draws \<open>1\<close> and \<open>-2\<close>: the path is
  \<open>100, 100 e\<^bsup>0.4\<^esup>, 100 e\<^bsup>-0.4\<^esup>\<close> against the strike \<open>100\<close>.  At the one backward
  step no path is in the money, the loop takes \<open>continue\<close> before any discount, and the
  terminal payoff is discounted once in all, by the final factor, where the claim has it
  discounted at the backward step as well.
\<close>

theorem lsm_put_skips_discount:
  "lsm_american_option_price (\<lambda>A Y. (0, 0, 0)) (\<lambda>t i. if t = 1 then 1 else - 2)
      100 100 2 (8 / 100) (4 / 10) ''put'' 1 2
     = Inr (Val ((100 - 100 * exp (- (2 / 5))) * exp (- (8 / 100))))"
proof -
  have upt: "[1..<2] = [1::nat]" by (simp add: upt_rec)
  have step: "lsm_put_step (\<lambda>A Y. (0, 0, 0)) 100 (exp (- (8 / 100))) 1 [100 * exp (2 / 5)] payoff = payoff" for payoff
    by (rule lsm_put_step_no_itm) simp
  have pay: "max (100 - 100 * exp (- (2 / 5) :: real)) 0 = 100 - 100 * exp (- (2 / 5))"
    by (simp add: max_def)
  show ?thesis
    unfolding lsm_american_option_price_def Let_def
    by (simp add: paths_example [simplified] upt [simplified] step [simplified] pay [simplified])
qed


section \<open>Option types and counts outside the contract\<close>

lemma black_scholes_rejects:
  assumes "option_type \<noteq> ''call''" "option_type \<noteq> ''put''"
  shows "isl (black_scholes S K T r sigma option_type)"
  using assms by (simp add: black_scholes_def Let_def)

lemma black_scholes_option_type_error:
  fixes S K T r sigma :: real
  assumes "option_type \<noteq> ''call''" "option_type \<noteq> ''put''"
    "0 < S" "0 < K" "0 < T" "0 < sigma"
  shows "black_scholes S K T r sigma option_type = Inl (ValueError OptionType)"
  using assms(1,2) bs_guards [OF assms(3-)] by (simp add: black_scholes_def Let_def)


text \<open>
  Claim C6, as the code has it.  The function of page 1 returns no price for an option type
  that is neither \<open>'call'\<close> nor \<open>'put'\<close>: it raises, and for \<open>S, K, T, sigma > 0\<close> the
  exception is the \<open>ValueError\<close> of its last line (otherwise the computation of \<open>d1\<close>
  has raised before).
\<close>

theorem black_scholes_rejects_unknown_kind:
  fixes S K T r sigma :: real
  assumes "option_type \<noteq> ''call''" "option_type \<noteq> ''put''"
  shows "isl (black_scholes S K T r sigma option_type)
       \<and> (0 < S \<and> 0 < K \<and> 0 < T \<and> 0 < sigma
            \<longrightarrow> black_scholes S K T r sigma option_type = Inl (ValueError OptionType))"
  using assms by (simp add: black_scholes_rejects black_scholes_option_type_error)

theorem black_scholes_rejects_unknown_kind_witness:
  "black_scholes 100 100 1 (5 / 100) (2 / 10) ''banana'' = Inl (ValueError OptionType)
   \<and> isl (black_scholes 100 0 1 (5 / 100) (2 / 10) ''banana'')"
  using black_scholes_rejects_unknown_kind [of "''banana''" 100 100 1 "5 / 100" "2 / 10"]
    black_scholes_rejects_unknown_kind [of "''banana''" 100 0 1 "5 / 100" "2 / 10"]
  by simp


text \<open>
  Claim C6 as stated fails on the copy of page 4, which has no such branch: for
  \<open>'banana'\<close> it returns the put price.
\<close>

theorem black_scholes_price_accepts_unknown_kind:
  "black_scholes_price 100 100 1 (5 / 100) (2 / 10) ''banana''
     = Inr (100 * exp (- (5 / 100)) * norm_cdf (- (3 / 20)) - 100 * norm_cdf (- (7 / 20)))"
  by (simp add: black_scholes_price_def Let_def power2_eq_square)


text \<open>
  Claim C7, as the code has it.  Neither pricer validates its counts.  The lattice pricer
  raises for every \<open>N < 1\<close> and the Monte Carlo pricer for every \<open>steps < 1\<close> and every
  \<open>simulations < 0\<close>, by a division by zero, a domain error, a negative dimension or an
  index out of range; with \<open>simulations = 0\<close> and \<open>steps \<ge> 1\<close> the Monte Carlo pricer
  raises nothing and returns \<open>nan\<close>.
\<close>

theorem invalid_counts:
  "(N < 1 \<longrightarrow> isl (binomial_tree S K T r sigma N option_type))
   \<and> (steps < 1 \<or> simulations < 0 \<longrightarrow>
        isl (lsm_american_option_price lstsq z S K T r sigma option_type simulations steps))
   \<and> (1 \<le> steps \<longrightarrow>
        lsm_american_option_price lstsq z S K T r sigma option_type 0 steps = Inr NaN)"
  by (simp add: binomial_tree_rejects_steps lsm_rejects_counts lsm_zero_simulations)

theorem invalid_counts_witness:
  "binomial_tree 100 100 1 (5 / 100) (2 / 10) 0 ''put'' = Inl ZeroDivisionError
   \<and> isl (binomial_tree 100 100 1 (5 / 100) (2 / 10) (- 1) ''put'')
   \<and> isl (lsm_american_option_price (\<lambda>A Y. (0, 0, 0)) (\<lambda>t i. 0) 100 100 1 (5 / 100) (2 / 10) ''put'' 1000 0)
   \<and> isl (lsm_american_option_price (\<lambda>A Y. (0, 0, 0)) (\<lambda>t i. 0) 100 100 1 (5 / 100) (2 / 10) ''put'' (- 5) 10)
   \<and> lsm_american_option_price (\<lambda>A Y. (0, 0, 0)) (\<lambda>t i. 0) 100 100 1 (5 / 100) (2 / 10) ''put'' 0 10 = Inr NaN"
  using invalid_counts [of "- 1" 100 100 1 "5 / 100" "2 / 10" "''put''" 0 1000 "\<lambda>A Y. (0, 0, 0)" "\<lambda>t i. 0"]
    invalid_counts [of 0 100 100 1 "5 / 100" "2 / 10" "''put''" 10 "- 5" "\<lambda>A Y. (0, 0, 0)" "\<lambda>t i. 0"]
  by (simp add: binomial_tree_def)


text \<open>
  Claim C7 as stated fails for \<open>simulations = 0\<close>: the result is \<open>nan\<close>, not an error.
\<close>

theorem lsm_no_simulations_counterexample:
  "lsm_american_option_price (\<lambda>A Y. (0, 0, 0)) (\<lambda>t i. 0) 100 100 1 (5 / 100) (2 / 10) ''put'' 0 1
     = Inr NaN"
  by (simp add: lsm_zero_simulations)





section \<open>The implied volatility estimator\<close>

text \<open>
  On a set of positive volatilities the objective raises nothing and is continuous.
\<close>

lemma objective_value:
  fixes S K T r sigma :: real
  assumes "0 < S" "0 < K" "0 < T" "0 < sigma"
  shows "objective S K T r market_price option_type sigma
           = Inr (bs_value S K T r option_type sigma - market_price)"
  using bs_guards [OF assms]
  by (simp add: objective_def black_scholes_price_def bs_value_def bs_d1_def bs_d2_def Let_def)

lemma continuous_on_bs_d1:
  assumes "0 < T" "\<forall>sigma \<in> A. 0 < sigma"
  shows "continuous_on A (bs_d1 S K T r)"
proof -
  have "continuous_on A (\<lambda>sigma. (ln (S / K) + (r + 0.5 * sigma\<^sup>2) * T) / (sigma * sqrt T))"
    using assms
    by (intro continuous_on_divide continuous_on_add continuous_on_mult continuous_on_power
          continuous_on_const continuous_on_id) auto
  then show ?thesis by (simp only: bs_d1_def [abs_def])
qed

lemma continuous_on_bs_d2:
  assumes "0 < T" "\<forall>sigma \<in> A. 0 < sigma"
  shows "continuous_on A (bs_d2 S K T r)"
proof -
  have "continuous_on A (\<lambda>sigma. bs_d1 S K T r sigma - sigma * sqrt T)"
    by (intro continuous_on_diff continuous_on_mult continuous_on_const continuous_on_id
          continuous_on_bs_d1 assms)
  then show ?thesis by (simp only: bs_d2_def [abs_def])
qed

lemma continuous_on_bs_value:
  assumes "0 < T" "\<forall>sigma \<in> A. 0 < sigma"
  shows "continuous_on A (\<lambda>sigma. bs_value S K T r option_type sigma - market_price)"
proof (cases "option_type = ''call''")
  case True
  have "continuous_on A (\<lambda>sigma. S * norm_cdf (bs_d1 S K T r sigma)
          - K * exp (- (r * T)) * norm_cdf (bs_d2 S K T r sigma) - market_price)"
    by (intro continuous_on_diff continuous_on_mult continuous_on_const continuous_on_norm_cdf
          continuous_on_bs_d1 continuous_on_bs_d2 assms)
  then show ?thesis using True by (simp add: bs_value_def)
next
  case False
  have "continuous_on A (\<lambda>sigma. K * exp (- (r * T)) * norm_cdf (- bs_d2 S K T r sigma)
           - S * norm_cdf (- bs_d1 S K T r sigma) - market_price)"
    by (intro continuous_on_diff continuous_on_mult continuous_on_const continuous_on_norm_cdf
          continuous_on_minus continuous_on_bs_d1 continuous_on_bs_d2 assms)
  then show ?thesis using False by (simp add: bs_value_def)
qed

lemma bracket_root:
  fixes f :: "real \<Rightarrow> real"
  assumes "continuous_on {a..b} f" "a \<le> b" "f a * f b \<le> 0"
  shows "\<exists>x. a \<le> x \<and> x \<le> b \<and> f x = 0"
proof (cases "f a \<le> 0")
  case True
  then have "0 \<le> f b \<or> f a = 0" using assms(3)
    by (metis mult_neg_neg not_le order_le_less)
  then show ?thesis
  proof
    assume "0 \<le> f b"
    then show ?thesis using IVT' [of f a 0 b] True assms(1,2) by blast
  next
    assume "f a = 0"
    then show ?thesis using assms(2) by blast
  qed
next
  case False
  then have "f b \<le> 0" using assms(3)
    by (metis mult_pos_pos not_le)
  then show ?thesis using IVT2' [of f b 0 a] False assms(1,2) by (simp add: not_le less_imp_le)
qed

lemma brentq_bracketed:
  assumes fa: "f a = Inr fa" and fb: "f b = Inr fb" and ab: "a \<le> b"
    and root: "\<exists>x. a \<le> x \<and> x \<le> b \<and> f x = Inr 0"
    and sign: "fa * fb \<le> 0"
  shows "\<exists>x. brentq f a b = Inr x \<and> a \<le> x \<and> x \<le> b \<and> f x = Inr 0"
proof -
  consider "fa = 0" | "fa \<noteq> 0" "fb = 0" | "fa \<noteq> 0" "fb \<noteq> 0" by blast
  then show ?thesis
  proof cases
    case 1
    then show ?thesis using fa fb ab by (simp add: brentq_def)
  next
    case 2
    then show ?thesis using fa fb ab by (simp add: brentq_def)
  next
    case 3
    let ?x = "SOME x. a \<le> x \<and> x \<le> b \<and> f x = Inr 0"
    have "a \<le> ?x \<and> ?x \<le> b \<and> f ?x = Inr 0"
      using root by (rule someI_ex)
    moreover have "brentq f a b = Inr ?x"
      using 3 sign fa fb by (simp add: brentq_def not_less)
    ultimately show ?thesis by simp
  qed
qed

lemma brentq_same_sign:
  assumes "f a = Inr fa" "f b = Inr fb" "\<not> fa * fb \<le> 0"
  shows "brentq f a b = Inl (ValueError SameSign)"
proof -
  have "fa \<noteq> 0" "fb \<noteq> 0" "fa * fb > 0" using assms(3) by auto
  then show ?thesis using assms(1,2) by (simp add: brentq_def)
qed


text \<open>
  Bounds on \<open>norm_cdf\<close> from its derivative: the density is at most \<open>1/2\<close> everywhere
  and at least \<open>1/243\<close> on \<open>[0, 5/2]\<close>.  They place the price of the at-the-money call
  with \<open>S = K = 100\<close>, \<open>T = 1\<close>, \<open>r = 0\<close> below \<open>1\<close> at the lower end of the bracket
  and between \<open>1\<close> and \<open>1000\<close> at the upper end.
\<close>

lemma density_le_half: "exp (- x\<^sup>2 / 2) / sqrt (2 * pi) \<le> 1 / 2" for x :: real
proof -
  have "2 \<le> sqrt (2 * pi)"
    using pi_ge_two by (intro real_le_rsqrt) simp
  moreover have "exp (- x\<^sup>2 / 2) \<le> 1" by simp
  ultimately show ?thesis
    by (intro frac_le) simp_all
qed

lemma density_ge:
  fixes x :: real
  assumes "0 \<le> x" "x \<le> 5 / 2"
  shows "1 / 243 \<le> exp (- x\<^sup>2 / 2) / sqrt (2 * pi)"
proof -
  have "x\<^sup>2 \<le> (5 / 2)\<^sup>2" using assms by (intro power_mono) simp_all
  then have "x\<^sup>2 / 2 \<le> 4" by (simp add: power2_eq_square)
  then have lo: "exp (- 4) \<le> exp (- x\<^sup>2 / 2)" by simp
  have "exp (4 :: real) \<le> 81"
  proof -
    have "exp (4 :: real) = exp 1 ^ 4" by (simp flip: exp_of_nat_mult)
    also have "\<dots> \<le> 3 ^ 4" by (intro power_mono exp_le) simp
    finally show ?thesis by simp
  qed
  then have "1 / 81 \<le> exp (- 4 :: real)"
    by (simp add: exp_minus field_simps)
  then have e: "1 / 81 \<le> exp (- x\<^sup>2 / 2)" using lo by (rule order_trans)
  have "sqrt (2 * pi) \<le> sqrt 9" using pi_less_4 by (intro real_sqrt_le_mono) simp
  then have s: "sqrt (2 * pi) \<le> 3" by simp
  have "1 / 243 = (1 / 81) / (3 :: real)" by simp
  also have "\<dots> \<le> exp (- x\<^sup>2 / 2) / sqrt (2 * pi)"
    using e s by (intro frac_le) simp_all
  finally show ?thesis .
qed

lemma norm_cdf_upper:
  assumes "0 \<le> x"
  shows "norm_cdf x \<le> 1 / 2 + x / 2"
proof -
  have "0 / 2 - norm_cdf 0 \<le> x / 2 - norm_cdf x"
  proof (rule DERIV_nonneg_imp_nondecreasing [OF assms])
    fix t :: real
    have "DERIV (\<lambda>t. t / 2 - norm_cdf t) t :> 1 / 2 - exp (- t\<^sup>2 / 2) / sqrt (2 * pi)"
      by (intro DERIV_diff DERIV_cdivide DERIV_ident norm_cdf_deriv)
    moreover have "0 \<le> 1 / 2 - exp (- t\<^sup>2 / 2) / sqrt (2 * pi)"
      using density_le_half [of t] by simp
    ultimately show "\<exists>y. DERIV (\<lambda>t. t / 2 - norm_cdf t) t :> y \<and> 0 \<le> y" by blast
  qed
  then show ?thesis by (simp add: norm_cdf_zero)
qed

lemma norm_cdf_lower:
  assumes "0 \<le> x" "x \<le> 5 / 2"
  shows "1 / 2 + x / 243 \<le> norm_cdf x"
proof -
  have "norm_cdf 0 - 0 / 243 \<le> norm_cdf x - x / 243"
  proof (rule DERIV_nonneg_imp_nondecreasing [OF assms(1)])
    fix t :: real assume t: "0 \<le> t" "t \<le> x"
    have "DERIV (\<lambda>t. norm_cdf t - t / 243) t :> exp (- t\<^sup>2 / 2) / sqrt (2 * pi) - 1 / 243"
      by (intro DERIV_diff DERIV_cdivide DERIV_ident norm_cdf_deriv)
    moreover have "0 \<le> exp (- t\<^sup>2 / 2) / sqrt (2 * pi) - 1 / 243"
      using density_ge [of t] t assms(2) by simp
    ultimately show "\<exists>y. DERIV (\<lambda>t. norm_cdf t - t / 243) t :> y \<and> 0 \<le> y" by blast
  qed
  then show ?thesis by (simp add: norm_cdf_zero)
qed

lemma black_scholes_price_value:
  fixes S K T r sigma :: real
  assumes "0 < S" "0 < K" "0 < T" "0 < sigma"
  shows "black_scholes_price S K T r sigma option_type = Inr (bs_value S K T r option_type sigma)"
  using bs_guards [OF assms]
  by (simp add: black_scholes_price_def bs_value_def bs_d1_def bs_d2_def Let_def)

lemma at_the_money_value:
  assumes "0 < sigma"
  shows "bs_value 100 100 1 0 ''call'' sigma = 100 * (2 * norm_cdf (sigma / 2) - 1)"
proof -
  have d1: "bs_d1 100 100 1 0 sigma = sigma / 2"
    using assms by (simp add: bs_d1_def power2_eq_square)
  then have d2: "bs_d2 100 100 1 0 sigma = - (sigma / 2)"
    by (simp add: bs_d2_def)
  show ?thesis
    by (simp add: bs_value_def d1 d2 norm_cdf_symmetric)
qed

lemma at_the_money_low: "bs_value 100 100 1 0 ''call'' (1 / 10 ^ 6) < 1"
proof -
  have "norm_cdf (1 / 10 ^ 6 / 2) \<le> 1 / 2 + (1 / 10 ^ 6 / 2) / 2"
    by (rule norm_cdf_upper) simp
  then show ?thesis by (simp add: at_the_money_value)
qed

lemma at_the_money_high: "1 < bs_value 100 100 1 0 ''call'' 5" "bs_value 100 100 1 0 ''call'' 5 < 1000"
proof -
  have "1 / 2 + (5 / 2) / 243 \<le> norm_cdf (5 / 2)"
    by (rule norm_cdf_lower) simp_all
  then show "1 < bs_value 100 100 1 0 ''call'' 5" by (simp add: at_the_money_value)
  have "norm_cdf (5 / 2) \<le> 1 / 2 + (5 / 2) / 2"
    by (rule norm_cdf_upper) simp
  then show "bs_value 100 100 1 0 ''call'' 5 < 1000" by (simp add: at_the_money_value)
qed

text \<open>
  Claim C5.  For \<open>S, K, T > 0\<close> and \<open>r \<ge> 0\<close>, any market price and any option type,
  the analytic price exists at both ends of the bracket \<open>[1e-6, 5]\<close>.  When price minus
  market price does not have the same strict sign at the two ends, the estimator returns a
  volatility in the bracket at which the analytic price is the market price, a root of
  \<open>f(sigma) = price(S, K, T, r, sigma, kind) - market_price\<close>; otherwise it returns
  \<open>None\<close>.  In neither case does an exception reach the caller.
\<close>

theorem implied_volatility_bracket:
  fixes S K T r market_price :: real
  assumes "0 < S" "0 < K" "0 < T" "0 \<le> r"
  shows "black_scholes_price S K T r (1 / 10 ^ 6) option_type
           = Inr (bs_value S K T r option_type (1 / 10 ^ 6))
       \<and> black_scholes_price S K T r 5 option_type = Inr (bs_value S K T r option_type 5)
       \<and> (if (bs_value S K T r option_type (1 / 10 ^ 6) - market_price)
               * (bs_value S K T r option_type 5 - market_price) \<le> 0
          then \<exists>x. implied_volatility S K T r market_price option_type = Inr (Some x)
                 \<and> 1 / 10 ^ 6 \<le> x \<and> x \<le> 5
                 \<and> black_scholes_price S K T r x option_type = Inr market_price
          else implied_volatility S K T r market_price option_type = Inr None)"
proof -
  let ?f = "objective S K T r market_price option_type"
  let ?g = "\<lambda>sigma. bs_value S K T r option_type sigma - market_price"
  let ?a = "1 / 10 ^ 6 :: real"
  have val: "?f sigma = Inr (?g sigma)" if "0 < sigma" for sigma
    using assms(1-3) that by (rule objective_value)
  have price: "black_scholes_price S K T r sigma option_type
                 = Inr (bs_value S K T r option_type sigma)" if "0 < sigma" for sigma
    using assms(1-3) that by (rule black_scholes_price_value)
  have fa: "?f ?a = Inr (?g ?a)" and fb: "?f 5 = Inr (?g 5)"
    by (rule val, simp)+
  have cont: "continuous_on {?a..5} ?g"
    by (rule continuous_on_bs_value [OF assms(3)]) simp
  have branch: "if ?g ?a * ?g 5 \<le> 0
          then \<exists>x. implied_volatility S K T r market_price option_type = Inr (Some x)
                 \<and> ?a \<le> x \<and> x \<le> 5
                 \<and> black_scholes_price S K T r x option_type = Inr market_price
          else implied_volatility S K T r market_price option_type = Inr None"
  proof (cases "?g ?a * ?g 5 \<le> 0")
    case True
    have "\<exists>x. ?a \<le> x \<and> x \<le> 5 \<and> ?g x = 0"
      by (rule bracket_root [OF cont _ True]) simp
    then obtain x where x: "?a \<le> x" "x \<le> 5" "?g x = 0" by blast
    then have "0 < x" by simp
    then have "?f x = Inr 0" using x(3) by (simp only: val)
    then have "\<exists>x. ?a \<le> x \<and> x \<le> 5 \<and> ?f x = Inr 0" using x(1,2) by blast
    then have "\<exists>x. brentq ?f ?a 5 = Inr x \<and> ?a \<le> x \<and> x \<le> 5 \<and> ?f x = Inr 0"
      by (intro brentq_bracketed [OF fa fb _ _ True]) simp_all
    then obtain y where y: "brentq ?f ?a 5 = Inr y" "?a \<le> y" "y \<le> 5" "?f y = Inr 0" by blast
    from y(2) have "0 < y" by simp
    then have "?g y = 0" using y(4) by (simp only: val sum.inject)
    then have "bs_value S K T r option_type y = market_price" by simp
    then have "black_scholes_price S K T r y option_type = Inr market_price"
      using \<open>0 < y\<close> by (simp only: price)
    moreover have "implied_volatility S K T r market_price option_type = Inr (Some y)"
      using y(1) by (simp add: implied_volatility_def)
    ultimately have "\<exists>x. implied_volatility S K T r market_price option_type = Inr (Some x)
                 \<and> ?a \<le> x \<and> x \<le> 5
                 \<and> black_scholes_price S K T r x option_type = Inr market_price"
      using y(2,3) by blast
    then show ?thesis using True by (simp only: if_True)
  next
    case False
    have "brentq ?f ?a 5 = Inl (ValueError SameSign)"
      by (rule brentq_same_sign [OF fa fb False])
    then have "implied_volatility S K T r market_price option_type = Inr None"
      by (simp add: implied_volatility_def)
    then show ?thesis using False by (simp only: if_False)
  qed
  have "black_scholes_price S K T r ?a option_type = Inr (bs_value S K T r option_type ?a)"
    by (rule price) simp
  moreover have "black_scholes_price S K T r 5 option_type = Inr (bs_value S K T r option_type 5)"
    by (rule price) simp
  ultimately show ?thesis using branch by (intro conjI)
qed

theorem implied_volatility_bracket_witness:
  "(\<exists>x. implied_volatility 100 100 1 0 1 ''call'' = Inr (Some x)
        \<and> 1 / 10 ^ 6 < x \<and> x < 5
        \<and> black_scholes_price 100 100 1 0 x ''call'' = Inr 1)
   \<and> implied_volatility 100 100 1 0 1000 ''call'' = Inr None"
proof
  have lo: "bs_value 100 100 1 0 ''call'' (1 / 10 ^ 6) - 1 < 0"
    using at_the_money_low by simp
  have hi: "0 < bs_value 100 100 1 0 ''call'' 5 - 1"
    using at_the_money_high(1) by simp
  have sign: "(bs_value 100 100 1 0 ''call'' (1 / 10 ^ 6) - 1)
                * (bs_value 100 100 1 0 ''call'' 5 - 1) \<le> 0"
    using lo hi by (intro mult_nonpos_nonneg) simp_all
  have ends: "black_scholes_price 100 100 1 0 (1 / 10 ^ 6) ''call''
                = Inr (bs_value 100 100 1 0 ''call'' (1 / 10 ^ 6))"
      "black_scholes_price 100 100 1 0 5 ''call'' = Inr (bs_value 100 100 1 0 ''call'' 5)"
    and branch: "\<exists>x. implied_volatility 100 100 1 0 1 ''call'' = Inr (Some x)
        \<and> 1 / 10 ^ 6 \<le> x \<and> x \<le> 5
        \<and> black_scholes_price 100 100 1 0 x ''call'' = Inr 1"
    using implied_volatility_bracket [of 100 100 1 0 "''call''" 1] sign by simp_all
  then obtain x where x: "implied_volatility 100 100 1 0 1 ''call'' = Inr (Some x)"
      "1 / 10 ^ 6 \<le> x" "x \<le> 5" "black_scholes_price 100 100 1 0 x ''call'' = Inr 1"
    by blast
  have "x \<noteq> 1 / 10 ^ 6"
  proof
    assume "x = 1 / 10 ^ 6"
    then have "bs_value 100 100 1 0 ''call'' (1 / 10 ^ 6) = 1"
      using x(4) ends(1) by (simp only: sum.inject)
    then show False using lo by simp
  qed
  moreover have "x \<noteq> 5"
  proof
    assume "x = 5"
    then have "bs_value 100 100 1 0 ''call'' 5 = 1"
      using x(4) ends(2) by (simp only: sum.inject)
    then show False using hi by simp
  qed
  ultimately show "\<exists>x. implied_volatility 100 100 1 0 1 ''call'' = Inr (Some x)
        \<and> 1 / 10 ^ 6 < x \<and> x < 5
        \<and> black_scholes_price 100 100 1 0 x ''call'' = Inr 1"
    using x by (intro exI [of _ x]) simp
next
  have "bs_value 100 100 1 0 ''call'' (1 / 10 ^ 6) - 1000 < 0"
    using at_the_money_low by simp
  moreover have "bs_value 100 100 1 0 ''call'' 5 - 1000 < 0"
    using at_the_money_high(2) by simp
  ultimately have "\<not> (bs_value 100 100 1 0 ''call'' (1 / 10 ^ 6) - 1000)
                * (bs_value 100 100 1 0 ''call'' 5 - 1000) \<le> 0"
    by (simp add: not_le mult_neg_neg)
  then show "implied_volatility 100 100 1 0 1000 ''call'' = Inr None"
    using implied_volatility_bracket [of 100 100 1 0 "''call''" 1000] by simp
qed

end
